theory Spec2Isabelle
  imports Main "HOL-Library.Word" "HOL-Library.Sublist"
begin

section \<open>The symbol patcher \<^verbatim>\<open>security-auditor/fix-symbols.py\<close>\<close>

text \<open>
  The script reads a shared object as one byte buffer, replaces a fixed mangled symbol name
  by a short name padded with null bytes, and writes the buffer to a path derived from the
  input path. The embedding follows the script line by line: Python \<^verbatim>\<open>bytes\<close> are lists
  of 8-bit words, \<^verbatim>\<open>str\<close> paths are \<^typ>\<open>string\<close>, the file system, the console and the
  order of file operations are an explicit state, and exceptions are values.
\<close>

subsection \<open>Bytes and the built-in \<^verbatim>\<open>replace\<close>\<close>

type_synonym byte = "8 word"
type_synonym bytes = "byte list"

text \<open>A bytes literal \<^verbatim>\<open>b'...'\<close> of printable ASCII characters.\<close>

definition bytes_of :: "string \<Rightarrow> bytes" where
  "bytes_of s = map of_char s"

text \<open>
  \<^verbatim>\<open>xs.replace(old, new)\<close> of Python, for \<^verbatim>\<open>bytes\<close> and for \<^verbatim>\<open>str\<close>, without a count:
  the sequence is scanned from the left; where \<^verbatim>\<open>old\<close> starts, \<^verbatim>\<open>new\<close> is emitted and the
  scan goes on behind the match (matches never overlap); any other element is copied.
  With an empty \<^verbatim>\<open>old\<close>, \<^verbatim>\<open>new\<close> is put before every element and at the end.
\<close>

function replace :: "'a list \<Rightarrow> 'a list \<Rightarrow> 'a list \<Rightarrow> 'a list" where
  "replace xs old new =
     (if old = [] then new @ concat (map (\<lambda>c. c # new) xs)
      else if xs = [] then []
      else if prefix old xs then new @ replace (drop (length old) xs) old new
      else hd xs # replace (tl xs) old new)"
  by pat_completeness auto
termination
  by (relation "measure (\<lambda>(xs, old, new). length xs)") auto

declare replace.simps [simp del]

text \<open>\<^verbatim>\<open>pat\<close> occurs in \<^verbatim>\<open>xs\<close> at offset \<^verbatim>\<open>i\<close>: \<^verbatim>\<open>xs[i : i + len(pat)] == pat\<close>.\<close>

definition occurs_at :: "'a list \<Rightarrow> 'a list \<Rightarrow> nat \<Rightarrow> bool" where
  "occurs_at pat xs i \<longleftrightarrow> i + length pat \<le> length xs \<and> take (length pat) (drop i xs) = pat"

text \<open>\<^verbatim>\<open>pat in xs\<close>: the pattern occurs at some offset of the buffer.\<close>

definition contains :: "'a list \<Rightarrow> 'a list \<Rightarrow> bool" where
  "contains xs pat \<longleftrightarrow> list_ex (occurs_at pat xs) [0..<Suc (length xs)]"

text \<open>Offset \<open>i\<close> of \<open>xs\<close> lies inside an occurrence of \<open>pat\<close>, one that starts at some \<open>j \<le> i\<close>.\<close>

definition covered :: "'a list \<Rightarrow> 'a list \<Rightarrow> nat \<Rightarrow> bool" where
  "covered pat xs i \<longleftrightarrow>
     list_ex (\<lambda>j. occurs_at pat xs j \<and> i < j + length pat) [0..<Suc i]"

text \<open>
  A pattern has a border when a proper non-empty suffix of it is also a prefix; two
  occurrences of a pattern can overlap only along a border. \<open>unbordered pat ys\<close> checks
  that no non-empty suffix of \<open>ys\<close> starts \<open>pat\<close>.
\<close>

fun unbordered :: "'a list \<Rightarrow> 'a list \<Rightarrow> bool" where
  "unbordered pat [] = True"
| "unbordered pat (y # ys) = (\<not> prefix (y # ys) pat \<and> unbordered pat ys)"

definition border_free :: "'a list \<Rightarrow> bool" where
  "border_free pat \<longleftrightarrow> unbordered pat (tl pat)"

subsection \<open>The constants of \<^verbatim>\<open>shorten_symbol_names\<close>\<close>

definition old_pattern :: bytes where
  "old_pattern = bytes_of
     ''.bss._ZN98_$LT$switchboard_solana..program_id..SWITCHBOARD_PROGRAM_ID$u20$as$u20$core..ops..deref..Deref$GT$5deref11__stability4LAZY17ha3b89edb3e526ca9E''"

definition new_pattern :: bytes where
  "new_pattern = bytes_of ''.bss._ZN_short''"

text \<open>
  \<^verbatim>\<open>new_pattern = new_pattern + b'\x00' * (len(old_pattern) - len(new_pattern))\<close>: the
  difference is a Python integer, and a bytes object times a negative number is empty.
\<close>

definition padded_pattern :: bytes where
  "padded_pattern =
     new_pattern @ replicate (nat (int (length old_pattern) - int (length new_pattern))) 0"

text \<open>\<^verbatim>\<open>modified_data = data.replace(old_pattern, new_pattern)\<close>\<close>

definition modified_data :: "bytes \<Rightarrow> bytes" where
  "modified_data data = replace data old_pattern padded_pattern"

text \<open>\<^verbatim>\<open>output_path = file_path.replace('.so', '_fixed.so')\<close>\<close>

definition output_path :: "string \<Rightarrow> string" where
  "output_path file_path = replace file_path ''.so'' ''_fixed.so''"

subsection \<open>Files, console and exceptions\<close>

text \<open>
  A path names a regular file with its content, a directory, or nothing. The trace records
  every file-system call in order, so that "no file is read" is a statement about the state.

  Whether \<^verbatim>\<open>open\<close> succeeds is not decided by the node at the path alone: the operating
  system refuses a call for a missing or non-directory parent, for missing permissions and
  so on. Its verdict is part of the state: \<open>refuse_read w p\<close> and \<open>refuse_write w p\<close> give
  the exception with which \<^verbatim>\<open>open(p, 'rb')\<close> and \<^verbatim>\<open>open(p, 'wb')\<close> are refused, if they
  are, and \<open>capacity w p\<close> the number of bytes the device still takes at \<open>p\<close>, if it is
  bounded.
\<close>

datatype node = File bytes | Dir

datatype io_event = Exists string | OpenRead string | OpenWrite string

datatype error =
    FileNotFoundError string
  | IsADirectoryError string
  | NotADirectoryError string
  | PermissionError string
  | OSError string

record world =
  files :: "string \<rightharpoonup> node"
  stdout :: "string list"
  trace :: "io_event list"
  refuse_read :: "string \<Rightarrow> error option"
  refuse_write :: "string \<Rightarrow> error option"
  capacity :: "string \<Rightarrow> nat option"

text \<open>\<^verbatim>\<open>print(s)\<close> appends one line to the console.\<close>

definition print :: "string \<Rightarrow> world \<Rightarrow> world" where
  "print s w = w\<lparr>stdout := stdout w @ [s]\<rparr>"

text \<open>\<^verbatim>\<open>os.path.exists(p)\<close> holds for files and for directories.\<close>

definition exists :: "string \<Rightarrow> world \<Rightarrow> bool \<times> world" where
  "exists p w = (files w p \<noteq> None, w\<lparr>trace := trace w @ [Exists p]\<rparr>)"

text \<open>
  \<^verbatim>\<open>with open(p, 'rb') as f: data = f.read()\<close>: the exception of the operating system when
  it refuses the call; otherwise \<^verbatim>\<open>FileNotFoundError\<close> where nothing is at the path,
  \<^verbatim>\<open>IsADirectoryError\<close> on a directory, and the content of a regular file.
\<close>

definition read_rb :: "string \<Rightarrow> world \<Rightarrow> (error + bytes) \<times> world" where
  "read_rb p w =
     (let w' = w\<lparr>trace := trace w @ [OpenRead p]\<rparr>
      in case refuse_read w p of
           Some e \<Rightarrow> (Inl e, w')
         | None \<Rightarrow>
             (case files w p of
                None \<Rightarrow> (Inl (FileNotFoundError p), w')
              | Some Dir \<Rightarrow> (Inl (IsADirectoryError p), w')
              | Some (File d) \<Rightarrow> (Inr d, w')))"

text \<open>
  \<^verbatim>\<open>with open(p, 'wb') as f: f.write(d)\<close>: a refused call and a directory raise and leave
  the files as they are. Otherwise the file is created or truncated; it then holds \<^verbatim>\<open>d\<close>,
  or, where the device takes fewer bytes than \<^verbatim>\<open>d\<close> has, the bytes it took, and
  \<^verbatim>\<open>f.write\<close> raises.
\<close>

definition write_wb :: "string \<Rightarrow> bytes \<Rightarrow> world \<Rightarrow> (error + unit) \<times> world" where
  "write_wb p d w =
     (let w' = w\<lparr>trace := trace w @ [OpenWrite p]\<rparr>
      in case refuse_write w p of
           Some e \<Rightarrow> (Inl e, w')
         | None \<Rightarrow>
             (case files w p of
                Some Dir \<Rightarrow> (Inl (IsADirectoryError p), w')
              | _ \<Rightarrow>
                  (case capacity w p of
                     None \<Rightarrow> (Inr (), w'\<lparr>files := (files w)(p \<mapsto> File d)\<rparr>)
                   | Some n \<Rightarrow>
                       if n < length d
                       then (Inl (OSError p), w'\<lparr>files := (files w)(p \<mapsto> File (take n d))\<rparr>)
                       else (Inr (), w'\<lparr>files := (files w)(p \<mapsto> File d)\<rparr>))))"

subsection \<open>\<^verbatim>\<open>shorten_symbol_names\<close> and the script body\<close>

definition shorten_symbol_names :: "string \<Rightarrow> world \<Rightarrow> (error + string) \<times> world" where
  "shorten_symbol_names file_path w =
     (case read_rb file_path w of
        (Inl e, w1) \<Rightarrow> (Inl e, w1)
      | (Inr data, w1) \<Rightarrow>
          (case write_wb (output_path file_path) (modified_data data) w1 of
             (Inl e, w2) \<Rightarrow> (Inl e, w2)
           | (Inr u, w2) \<Rightarrow>
               (Inr (output_path file_path),
                print (''Fixed file written to: '' @ output_path file_path) w2)))"

text \<open>
  The \<^verbatim>\<open>__main__\<close> block on \<^verbatim>\<open>sys.argv\<close> (the script name first). The result is the
  exit status, or the exception that ends the process when none of the code catches it.
\<close>

definition main :: "string list \<Rightarrow> world \<Rightarrow> (error + int) \<times> world" where
  "main argv w =
     (if length argv \<noteq> 2
      then (Inr 1, print ''Usage: python fix-symbols.py <path_to_so_file>'' w)
      else
        let file_path = argv ! 1 in
        case exists file_path w of
          (False, w1) \<Rightarrow> (Inr 1, print (''Error: File '' @ file_path @ '' not found'') w1)
        | (True, w1) \<Rightarrow>
            (case shorten_symbol_names file_path w1 of
               (Inl e, w2) \<Rightarrow> (Inl e, w2)
             | (Inr fixed_path, w2) \<Rightarrow>
                 (Inr 0, print (''Successfully shortened symbol names in '' @ fixed_path) w2)))"

subsection \<open>A small file system for examples\<close>

text \<open>
  One regular file at path \<open>p\<close>, an empty console, no file operation so far, and an
  operating system that refuses nothing and has room for every write.
\<close>

definition single_file :: "string \<Rightarrow> bytes \<Rightarrow> world" where
  "single_file p B =
     \<lparr>files = [p \<mapsto> File B], stdout = [], trace = [],
      refuse_read = (\<lambda>p. None), refuse_write = (\<lambda>p. None), capacity = (\<lambda>p. None)\<rparr>"

section \<open>Properties of \<^verbatim>\<open>replace\<close>\<close>

lemma replace_Nil: "old \<noteq> [] \<Longrightarrow> replace [] old new = []"
  by (simp add: replace.simps)

lemma replace_match:
  "old \<noteq> [] \<Longrightarrow> prefix old xs \<Longrightarrow>
   replace xs old new = new @ replace (drop (length old) xs) old new"
  by (subst replace.simps) auto

lemma replace_copy:
  "old \<noteq> [] \<Longrightarrow> \<not> prefix old (x # xs) \<Longrightarrow> replace (x # xs) old new = x # replace xs old new"
  by (subst replace.simps) simp

lemma occurs_at_0: "occurs_at pat xs 0 \<longleftrightarrow> prefix pat xs"
proof
  assume "occurs_at pat xs 0"
  then have "take (length pat) xs = pat" by (simp add: occurs_at_def)
  then show "prefix pat xs" by (metis take_is_prefix)
next
  assume "prefix pat xs"
  then obtain zs where "xs = pat @ zs" by (auto elim: prefixE)
  then show "occurs_at pat xs 0" by (simp add: occurs_at_def)
qed

lemma occurs_at_Suc: "occurs_at pat (x # xs) (Suc i) \<longleftrightarrow> occurs_at pat xs i"
  by (simp add: occurs_at_def)

lemma occurs_at_drop:
  assumes "pat \<noteq> []"
  shows "occurs_at pat (drop k xs) i \<longleftrightarrow> occurs_at pat xs (k + i)"
proof -
  have "0 < length pat" using assms by simp
  then have "i + length pat \<le> length xs - k \<longleftrightarrow> k + i + length pat \<le> length xs"
    by arith
  then show ?thesis by (simp add: occurs_at_def add.commute)
qed

lemma contains_iff: "contains xs pat \<longleftrightarrow> (\<exists>i. occurs_at pat xs i)"
proof
  assume "contains xs pat"
  then show "\<exists>i. occurs_at pat xs i"
    unfolding contains_def list_ex_iff by blast
next
  assume "\<exists>i. occurs_at pat xs i"
  then obtain i where i: "occurs_at pat xs i" ..
  then have "i \<in> set [0..<Suc (length xs)]" by (auto simp: occurs_at_def)
  with i show "contains xs pat"
    unfolding contains_def list_ex_iff by (rule_tac x = i in bexI)
qed

lemma covered_iff:
  "covered pat xs i \<longleftrightarrow> (\<exists>j. occurs_at pat xs j \<and> j \<le> i \<and> i < j + length pat)"
proof
  assume "covered pat xs i"
  then obtain j where "j \<in> set [0..<Suc i]" and "occurs_at pat xs j \<and> i < j + length pat"
    unfolding covered_def list_ex_iff by blast
  then have "occurs_at pat xs j \<and> j \<le> i \<and> i < j + length pat" by auto
  then show "\<exists>j. occurs_at pat xs j \<and> j \<le> i \<and> i < j + length pat" ..
next
  assume "\<exists>j. occurs_at pat xs j \<and> j \<le> i \<and> i < j + length pat"
  then obtain j where j: "occurs_at pat xs j \<and> i < j + length pat" and "j \<le> i" by blast
  then have "j \<in> set [0..<Suc i]" by auto
  with j show "covered pat xs i"
    unfolding covered_def list_ex_iff by (rule_tac x = j in bexI)
qed

lemma unbordered_iff:
  "unbordered pat ys \<longleftrightarrow> (\<forall>k < length ys. \<not> prefix (drop k ys) pat)"
proof (induction ys)
  case Nil
  show ?case by simp
next
  case (Cons y ys)
  show ?case by (auto simp: Cons.IH less_Suc_eq_0_disj)
qed

lemma border_free_iff:
  "border_free pat \<longleftrightarrow> (\<forall>k. 1 \<le> k \<and> k < length pat \<longrightarrow> \<not> prefix (drop k pat) pat)"
proof (cases pat)
  case Nil
  then show ?thesis by (simp add: border_free_def)
next
  case (Cons x xs)
  have "(\<forall>k < length xs. \<not> prefix (drop k xs) pat) \<longleftrightarrow>
        (\<forall>k. 1 \<le> k \<and> k < length pat \<longrightarrow> \<not> prefix (drop k pat) pat)"
  proof (intro iffI allI impI)
    fix k
    assume a: "\<forall>k < length xs. \<not> prefix (drop k xs) pat" and k: "1 \<le> k \<and> k < length pat"
    then obtain j where j: "k = Suc j" by (cases k) auto
    with k Cons have "j < length xs" by simp
    with a have "\<not> prefix (drop j xs) pat" by blast
    then show "\<not> prefix (drop k pat) pat" by (simp add: j Cons)
  next
    fix k
    assume a: "\<forall>k. 1 \<le> k \<and> k < length pat \<longrightarrow> \<not> prefix (drop k pat) pat"
      and k: "k < length xs"
    then have "1 \<le> Suc k \<and> Suc k < length pat" using Cons by simp
    with a have "\<not> prefix (drop (Suc k) pat) pat" by blast
    then show "\<not> prefix (drop k xs) pat" by (simp add: Cons)
  qed
  then show ?thesis by (simp add: border_free_def unbordered_iff Cons)
qed

lemma no_overlap:
  assumes bf: "border_free pat" and o0: "occurs_at pat xs 0" and oi: "occurs_at pat xs i"
    and i: "0 < i" "i < length pat"
  shows False
proof -
  let ?n = "length pat"
  from o0 have a: "take ?n xs = pat" by (simp add: occurs_at_def)
  from oi have b: "take ?n (drop i xs) = pat" by (simp add: occurs_at_def)
  have "drop i pat = drop i (take ?n xs)" using a by simp
  also have "\<dots> = take (?n - i) (drop i xs)" by (simp add: drop_take)
  also have "\<dots> = take (?n - i) (take ?n (drop i xs))" by (simp add: min_def)
  also have "\<dots> = take (?n - i) pat" using b by simp
  finally have "prefix (drop i pat) pat" by (simp add: take_is_prefix)
  moreover have "1 \<le> i \<and> i < ?n" using i by auto
  ultimately show False using bf unfolding border_free_iff by blast
qed

lemma replace_length:
  assumes "old \<noteq> []" and "length new = length old"
  shows "length (replace xs old new) = length xs"
proof (induction xs rule: length_induct)
  case (1 xs)
  show ?case
  proof (cases xs)
    case Nil
    with assms show ?thesis by (simp add: replace_Nil)
  next
    case (Cons x xs')
    show ?thesis
    proof (cases "prefix old xs")
      case True
      then have le: "length old \<le> length xs" by (rule prefix_length_le)
      have "length (drop (length old) xs) < length xs" using assms Cons by simp
      with 1 have "length (replace (drop (length old) xs) old new) = length (drop (length old) xs)"
        by blast
      with le assms show ?thesis by (simp add: replace_match [OF assms(1) True])
    next
      case False
      have "length (replace xs' old new) = length xs'" using 1 Cons by simp
      with False assms show ?thesis unfolding Cons by (simp add: replace_copy)
    qed
  qed
qed

lemma replace_absent:
  assumes "old \<noteq> []" and "\<And>i. \<not> occurs_at old xs i"
  shows "replace xs old new = xs"
  using assms(2)
proof (induction xs)
  case Nil
  with assms(1) show ?case by (simp add: replace_Nil)
next
  case (Cons x xs)
  have np: "\<not> prefix old (x # xs)" using Cons.prems [of 0] by (simp add: occurs_at_0)
  have "\<And>i. \<not> occurs_at old xs i" using Cons.prems [of "Suc _"] by (simp add: occurs_at_Suc)
  then have "replace xs old new = xs" by (rule Cons.IH)
  with np assms(1) show ?case by (simp add: replace_copy)
qed

lemma replace_at_occurrence:
  assumes ne: "old \<noteq> []" and len: "length new = length old" and bf: "border_free old"
  shows "occurs_at old xs i \<Longrightarrow> occurs_at new (replace xs old new) i"
proof (induction xs arbitrary: i rule: length_induct)
  case (1 xs)
  note occ = \<open>occurs_at old xs i\<close>
  let ?n = "length old"
  show ?case
  proof (cases xs)
    case Nil
    with occ ne show ?thesis by (simp add: occurs_at_def)
  next
    case (Cons x xs')
    show ?thesis
    proof (cases "prefix old xs")
      case True
      let ?rest = "replace (drop ?n xs) old new"
      have eq: "replace xs old new = new @ ?rest" by (rule replace_match [OF ne True])
      have o0: "occurs_at old xs 0" using True by (simp add: occurs_at_0)
      consider "i = 0" | "0 < i" "i < ?n" | "?n \<le> i" by linarith
      then show ?thesis
      proof cases
        case 1
        then show ?thesis unfolding eq by (simp add: occurs_at_def)
      next
        case 2
        with no_overlap [OF bf o0 occ] show ?thesis by simp
      next
        case 3
        then have "occurs_at old (drop ?n xs) (i - ?n)"
          using occ by (simp add: occurs_at_drop [OF ne])
        moreover have "length (drop ?n xs) < length xs" using ne Cons by simp
        ultimately have "occurs_at new ?rest (i - ?n)" using "1.IH" by blast
        with 3 len show ?thesis unfolding eq by (simp add: occurs_at_def)
      qed
    next
      case False
      have eq: "replace xs old new = x # replace xs' old new"
        using False unfolding Cons by (rule replace_copy [OF ne])
      have "i \<noteq> 0"
      proof
        assume "i = 0"
        with occ have "prefix old xs" by (simp add: occurs_at_0)
        with False show False ..
      qed
      then obtain j where j: "i = Suc j" by (cases i) auto
      with occ have "occurs_at old xs' j" unfolding Cons by (simp add: occurs_at_Suc)
      then have "occurs_at new (replace xs' old new) j" using "1.IH" Cons by simp
      then show ?thesis unfolding eq j by (simp add: occurs_at_Suc)
    qed
  qed
qed

lemma replace_outside:
  assumes ne: "old \<noteq> []" and len: "length new = length old"
  shows "i < length xs \<Longrightarrow>
         (\<And>j. occurs_at old xs j \<Longrightarrow> \<not> (j \<le> i \<and> i < j + length old)) \<Longrightarrow>
         replace xs old new ! i = xs ! i"
proof (induction xs arbitrary: i rule: length_induct)
  case (1 xs)
  note i = \<open>i < length xs\<close>
  note out = "1.prems"(2)
  let ?n = "length old"
  show ?case
  proof (cases xs)
    case Nil
    with i show ?thesis by simp
  next
    case (Cons x xs')
    show ?thesis
    proof (cases "prefix old xs")
      case True
      let ?ys = "drop ?n xs"
      have eq: "replace xs old new = new @ replace ?ys old new"
        by (rule replace_match [OF ne True])
      have "occurs_at old xs 0" using True by (simp add: occurs_at_0)
      from out [OF this] have ge: "?n \<le> i" by simp
      have shorter: "length ?ys < length xs" using ne Cons by simp
      have i': "i - ?n < length ?ys" using i ge by simp
      have out': "\<not> (j \<le> i - ?n \<and> i - ?n < j + ?n)" if "occurs_at old ?ys j" for j
      proof -
        from that have "occurs_at old xs (?n + j)" by (simp add: occurs_at_drop [OF ne])
        from out [OF this] ge show ?thesis by auto
      qed
      have "replace ?ys old new ! (i - ?n) = ?ys ! (i - ?n)"
        using "1.IH" shorter i' out' by blast
      also have "\<dots> = xs ! i" using ge i by simp
      finally show ?thesis unfolding eq using ge len by (simp add: nth_append)
    next
      case False
      have eq: "replace xs old new = x # replace xs' old new"
        using False unfolding Cons by (rule replace_copy [OF ne])
      show ?thesis
      proof (cases i)
        case 0
        have "replace xs old new ! 0 = x" by (simp add: eq)
        with 0 show ?thesis by (simp add: Cons)
      next
        case (Suc k)
        have k: "k < length xs'" using i Suc Cons by simp
        have out': "\<not> (j \<le> k \<and> k < j + ?n)" if "occurs_at old xs' j" for j
        proof -
          from that have "occurs_at old xs (Suc j)" unfolding Cons by (simp add: occurs_at_Suc)
          from out [OF this] Suc show ?thesis by auto
        qed
        have "replace xs' old new ! k = xs' ! k"
          using "1.IH" Cons k out' by simp
        then have "replace xs old new ! Suc k = xs' ! k" by (simp add: eq)
        then show ?thesis by (simp add: Suc Cons)
      qed
    qed
  qed
qed

lemma replace_segment:
  assumes ne: "old \<noteq> []" and bf: "border_free old"
    and absent: "\<And>i. \<not> occurs_at old s i"
  shows "replace (s @ old @ rest) old new = s @ new @ replace rest old new"
  using absent
proof (induction s)
  case Nil
  have "prefix old (old @ rest)" by simp
  from replace_match [OF ne this] show ?case by simp
next
  case (Cons c s)
  let ?n = "length old"
  have np: "\<not> prefix old (c # s @ old @ rest)"
  proof
    assume p: "prefix old (c # s @ old @ rest)"
    show False
    proof (cases "?n \<le> length (c # s)")
      case True
      from p have "prefix old ((c # s) @ old @ rest)" by simp
      then have "prefix old (c # s) \<or> (\<exists>us. old = (c # s) @ us \<and> prefix us (old @ rest))"
        by (simp only: prefix_append)
      with True have "prefix old (c # s)" by auto
      then have "occurs_at old (c # s) 0" by (simp add: occurs_at_0)
      with Cons.prems show False by blast
    next
      case False
      let ?xs = "c # s @ old @ rest"
      have o0: "occurs_at old ?xs 0" using p by (simp add: occurs_at_0)
      have "occurs_at old ?xs (length (c # s))" by (simp add: occurs_at_def)
      from no_overlap [OF bf o0 this] False show False by simp
    qed
  qed
  have "\<And>i. \<not> occurs_at old s i" using Cons.prems [of "Suc _"] by (simp add: occurs_at_Suc)
  then have "replace (s @ old @ rest) old new = s @ new @ replace rest old new" by (rule Cons.IH)
  with np ne show ?case by (simp add: replace_copy)
qed

section \<open>The two patterns\<close>

lemma length_old_pattern: "length old_pattern = 152"
  by (simp add: old_pattern_def bytes_of_def)

lemma length_new_pattern: "length new_pattern = 14"
  by (simp add: new_pattern_def bytes_of_def)

lemma length_padded_pattern: "length padded_pattern = length old_pattern"
  by (simp add: padded_pattern_def length_old_pattern length_new_pattern)

lemma old_pattern_nonempty: "old_pattern \<noteq> []"
  using length_old_pattern by auto

lemma border_free_old_pattern: "border_free old_pattern"
  by code_simp

lemma border_free_so: "border_free ''.so''"
  by code_simp

lemma length_modified_data: "length (modified_data B) = length B"
  unfolding modified_data_def
  by (rule replace_length [OF old_pattern_nonempty length_padded_pattern])

text \<open>
  The old pattern has no border, so every occurrence of it is one that the scan replaces.
\<close>

lemma modified_data_at_occurrence:
  "occurs_at old_pattern B i \<Longrightarrow> occurs_at padded_pattern (modified_data B) i"
  unfolding modified_data_def
  by (rule replace_at_occurrence [OF old_pattern_nonempty length_padded_pattern border_free_old_pattern])

lemma occurs_at_middle: "occurs_at pat (xs @ pat @ ys) (length xs)"
  by (simp add: occurs_at_def)

lemma so_nonempty: "''.so'' \<noteq> []"
  by simp

lemma modified_data_absent: "\<not> contains B old_pattern \<Longrightarrow> modified_data B = B"
  unfolding modified_data_def
  by (rule replace_absent [OF old_pattern_nonempty]) (simp add: contains_iff)

lemma output_path_absent: "\<not> contains p ''.so'' \<Longrightarrow> output_path p = p"
  unfolding output_path_def
  by (rule replace_absent [OF so_nonempty]) (simp add: contains_iff)

section \<open>Running \<^verbatim>\<open>shorten_symbol_names\<close>\<close>

text \<open>The two file operations, one by one.\<close>

lemma read_rb_ok:
  assumes "fst (read_rb p w) = Inr B"
  shows "read_rb p w = (Inr B, w\<lparr>trace := trace w @ [OpenRead p]\<rparr>)"
  using assms
  by (auto simp: read_rb_def Let_def split: option.splits node.splits)

lemma read_rb_file:
  "fst (read_rb p w) = Inr B \<longleftrightarrow> refuse_read w p = None \<and> files w p = Some (File B)"
  by (auto simp: read_rb_def Let_def split: option.splits node.splits)

lemma write_wb_ok:
  assumes "fst (write_wb p d w) = Inr ()"
  shows "write_wb p d w =
           (Inr (), w\<lparr>trace := trace w @ [OpenWrite p], files := (files w)(p \<mapsto> File d)\<rparr>)"
  using assms
  by (auto simp: write_wb_def Let_def split: option.splits node.splits if_splits)

lemma write_wb_trace:
  "fst (write_wb p d (w\<lparr>trace := t\<rparr>)) = fst (write_wb p d w)"
  by (auto simp: write_wb_def Let_def split: option.splits node.splits)

lemma single_file_reads: "fst (read_rb p (single_file p B)) = Inr B"
  by (simp add: read_rb_def single_file_def)

lemma single_file_writes: "fst (write_wb q d (single_file p B)) = Inr ()"
  by (simp add: write_wb_def single_file_def split: option.splits node.splits)

text \<open>
  When the read of the input file gives \<open>B\<close> and the write of the patched buffer to the
  derived path succeeds, the function has read the file, written the patched buffer to the
  derived path, printed one line and returned the path.
\<close>

lemma shorten_symbol_names_run:
  assumes "fst (read_rb file_path w) = Inr B"
    and "fst (write_wb (output_path file_path) (modified_data B) w) = Inr ()"
  shows "shorten_symbol_names file_path w =
     (Inr (output_path file_path),
      w\<lparr>trace := trace w @ [OpenRead file_path, OpenWrite (output_path file_path)],
        files := (files w)(output_path file_path \<mapsto> File (modified_data B)),
        stdout := stdout w @ [''Fixed file written to: '' @ output_path file_path]\<rparr>)"
proof -
  let ?w1 = "w\<lparr>trace := trace w @ [OpenRead file_path]\<rparr>"
  have r: "read_rb file_path w = (Inr B, ?w1)" by (rule read_rb_ok [OF assms(1)])
  have "fst (write_wb (output_path file_path) (modified_data B) ?w1) = Inr ()"
    using assms(2) by (simp add: write_wb_trace)
  from write_wb_ok [OF this] r show ?thesis
    by (simp add: shorten_symbol_names_def print_def)
qed

text \<open>
  When the operating system refuses one of the two calls, the exception leaves the function
  and the files are as before: nothing is written.
\<close>

lemma shorten_symbol_names_read_refused:
  assumes "refuse_read w file_path = Some e"
  shows "shorten_symbol_names file_path w = (Inl e, w\<lparr>trace := trace w @ [OpenRead file_path]\<rparr>)"
  using assms by (simp add: shorten_symbol_names_def read_rb_def)

lemma shorten_symbol_names_write_refused:
  assumes "fst (read_rb file_path w) = Inr B" and "refuse_write w (output_path file_path) = Some e"
  shows "shorten_symbol_names file_path w =
           (Inl e, w\<lparr>trace := trace w @ [OpenRead file_path, OpenWrite (output_path file_path)]\<rparr>)"
  using assms(2) by (simp add: shorten_symbol_names_def read_rb_ok [OF assms(1)] write_wb_def)

text \<open>The two properties of the patched buffer that C2 and C3 are about.\<close>

lemma modified_data_region:
  assumes "occurs_at old_pattern B i"
  shows "take (length old_pattern) (drop i (modified_data B))
           = bytes_of ''.bss._ZN_short''
             @ replicate (length old_pattern - length (bytes_of ''.bss._ZN_short'')) 0"
proof -
  from modified_data_at_occurrence [OF assms]
  have "take (length old_pattern) (drop i (modified_data B)) = padded_pattern"
    by (simp add: occurs_at_def length_padded_pattern)
  then show ?thesis
    by (simp add: padded_pattern_def new_pattern_def length_old_pattern bytes_of_def)
qed

lemma modified_data_old_gone:
  assumes "occurs_at old_pattern B k"
  shows "\<not> occurs_at old_pattern (modified_data B) k"
proof
  have ne: "padded_pattern \<noteq> old_pattern"
    by (simp add: padded_pattern_def new_pattern_def old_pattern_def bytes_of_def)
  assume "occurs_at old_pattern (modified_data B) k"
  moreover from modified_data_at_occurrence [OF assms]
  have "occurs_at padded_pattern (modified_data B) k" .
  ultimately show False using ne by (simp add: occurs_at_def length_padded_pattern)
qed

lemma output_path_lib: "output_path ''lib.so'' = ''lib_fixed.so''"
  by code_simp

section \<open>The claims\<close>

text \<open>
  C1. When \<^verbatim>\<open>shorten_symbol_names\<close> reads the buffer \<open>B\<close> from the input file, whatever
  occurrences of the old pattern \<open>B\<close> holds, and its write to the derived path succeeds,
  it returns the derived path, and the buffer it has written there is \<open>modified_data B\<close>,
  whose length is exactly the length of \<open>B\<close>.
\<close>

theorem output_length_preserved:
  assumes "fst (read_rb file_path w) = Inr B"
    and "fst (write_wb (output_path file_path) (modified_data B) w) = Inr ()"
  shows "fst (shorten_symbol_names file_path w) = Inr (output_path file_path) \<and>
         files (snd (shorten_symbol_names file_path w)) (output_path file_path)
           = Some (File (modified_data B)) \<and>
         length (modified_data B) = length B"
  by (simp add: shorten_symbol_names_run [OF assms] length_modified_data)

theorem output_length_preserved_witness:
  "fst (read_rb ''lib.so'' (single_file ''lib.so'' (7 # old_pattern @ [9])))
     = Inr (7 # old_pattern @ [9]) \<and>
   fst (write_wb (output_path ''lib.so'') (modified_data (7 # old_pattern @ [9]))
          (single_file ''lib.so'' (7 # old_pattern @ [9]))) = Inr () \<and>
   fst (shorten_symbol_names ''lib.so'' (single_file ''lib.so'' (7 # old_pattern @ [9])))
     = Inr ''lib_fixed.so'' \<and>
   files (snd (shorten_symbol_names ''lib.so'' (single_file ''lib.so'' (7 # old_pattern @ [9]))))
     ''lib_fixed.so'' = Some (File (modified_data (7 # old_pattern @ [9]))) \<and>
   length (modified_data (7 # old_pattern @ [9])) = 154"
proof -
  let ?B = "7 # old_pattern @ [9]"
  let ?w = "single_file ''lib.so'' ?B"
  have h1: "fst (read_rb ''lib.so'' ?w) = Inr ?B" by (rule single_file_reads)
  have h2: "fst (write_wb (output_path ''lib.so'') (modified_data ?B) ?w) = Inr ()"
    by (rule single_file_writes)
  from output_length_preserved [OF h1 h2] h1 h2 show ?thesis
    by (simp add: output_path_lib length_old_pattern)
qed

text \<open>
  C2. When \<^verbatim>\<open>shorten_symbol_names\<close> reads the buffer \<open>B\<close> and its write succeeds, the
  file at the derived path holds a buffer that, at every offset where the old pattern occurs
  in \<open>B\<close>, has \<^verbatim>\<open>.bss._ZN_short\<close> followed by null bytes, as many as the old pattern is
  longer than the short name, over the old pattern's length.
\<close>

theorem occurrence_region_padded:
  assumes "fst (read_rb file_path w) = Inr B"
    and "fst (write_wb (output_path file_path) (modified_data B) w) = Inr ()"
    and "occurs_at old_pattern B i"
  shows "\<exists>out. files (snd (shorten_symbol_names file_path w)) (output_path file_path)
                 = Some (File out) \<and>
               take (length old_pattern) (drop i out)
                 = bytes_of ''.bss._ZN_short''
                   @ replicate (length old_pattern - length (bytes_of ''.bss._ZN_short'')) 0"
  using modified_data_region [OF assms(3)]
  by (simp add: shorten_symbol_names_run [OF assms(1,2)])

theorem occurrence_region_padded_witness:
  "fst (read_rb ''lib.so'' (single_file ''lib.so'' (7 # old_pattern @ [9])))
     = Inr (7 # old_pattern @ [9]) \<and>
   fst (write_wb (output_path ''lib.so'') (modified_data (7 # old_pattern @ [9]))
          (single_file ''lib.so'' (7 # old_pattern @ [9]))) = Inr () \<and>
   occurs_at old_pattern (7 # old_pattern @ [9]) 1 \<and>
   (\<exists>out. files (snd (shorten_symbol_names ''lib.so''
                         (single_file ''lib.so'' (7 # old_pattern @ [9])))) ''lib_fixed.so''
            = Some (File out) \<and>
          take 152 (drop 1 out) = bytes_of ''.bss._ZN_short'' @ replicate 138 0)"
proof -
  let ?B = "7 # old_pattern @ [9]"
  let ?w = "single_file ''lib.so'' ?B"
  have h1: "fst (read_rb ''lib.so'' ?w) = Inr ?B" by (rule single_file_reads)
  have h2: "fst (write_wb (output_path ''lib.so'') (modified_data ?B) ?w) = Inr ()"
    by (rule single_file_writes)
  have h3: "occurs_at old_pattern ?B 1"
    using occurs_at_middle [of old_pattern "[7]" "[9]"] by simp
  from occurrence_region_padded [OF h1 h2 h3] h1 h2 h3 show ?thesis
    by (simp add: output_path_lib length_old_pattern bytes_of_def)
qed

text \<open>
  C3. When \<^verbatim>\<open>shorten_symbol_names\<close> reads a buffer \<open>B\<close> with two occurrences of the old
  pattern, one at \<open>i\<close> and a later one at \<open>j\<close>, and its write succeeds, the file at the
  derived path holds a buffer with the padded replacement at both offsets and the old
  pattern at neither: the later occurrence is replaced as the first one is.
\<close>

theorem every_occurrence_replaced:
  assumes "fst (read_rb file_path w) = Inr B"
    and "fst (write_wb (output_path file_path) (modified_data B) w) = Inr ()"
    and "occurs_at old_pattern B i" and "occurs_at old_pattern B j" and "i < j"
  shows "\<exists>out. files (snd (shorten_symbol_names file_path w)) (output_path file_path)
                 = Some (File out) \<and>
               occurs_at padded_pattern out i \<and> occurs_at padded_pattern out j \<and>
               \<not> occurs_at old_pattern out i \<and> \<not> occurs_at old_pattern out j"
  using assms(3,4)
  by (simp add: shorten_symbol_names_run [OF assms(1,2)] modified_data_at_occurrence
      modified_data_old_gone)

theorem every_occurrence_replaced_witness:
  "fst (read_rb ''lib.so'' (single_file ''lib.so'' (old_pattern @ 7 # old_pattern)))
     = Inr (old_pattern @ 7 # old_pattern) \<and>
   fst (write_wb (output_path ''lib.so'') (modified_data (old_pattern @ 7 # old_pattern))
          (single_file ''lib.so'' (old_pattern @ 7 # old_pattern))) = Inr () \<and>
   occurs_at old_pattern (old_pattern @ 7 # old_pattern) 0 \<and>
   occurs_at old_pattern (old_pattern @ 7 # old_pattern) 153 \<and> (0::nat) < 153 \<and>
   (\<exists>out. files (snd (shorten_symbol_names ''lib.so''
                         (single_file ''lib.so'' (old_pattern @ 7 # old_pattern)))) ''lib_fixed.so''
            = Some (File out) \<and>
          occurs_at padded_pattern out 0 \<and> occurs_at padded_pattern out 153 \<and>
          \<not> occurs_at old_pattern out 0 \<and> \<not> occurs_at old_pattern out 153)"
proof -
  let ?B = "old_pattern @ 7 # old_pattern"
  let ?w = "single_file ''lib.so'' ?B"
  have h1: "fst (read_rb ''lib.so'' ?w) = Inr ?B" by (rule single_file_reads)
  have h2: "fst (write_wb (output_path ''lib.so'') (modified_data ?B) ?w) = Inr ()"
    by (rule single_file_writes)
  have h3: "occurs_at old_pattern ?B 0"
    using occurs_at_middle [of old_pattern "[]" "7 # old_pattern"] by simp
  have h4: "occurs_at old_pattern ?B 153"
    using occurs_at_middle [of old_pattern "old_pattern @ [7]" "[]"]
    by (simp add: length_old_pattern)
  have h5: "(0::nat) < 153" by simp
  from every_occurrence_replaced [OF h1 h2 h3 h4 h5] h1 h2 h3 h4 show ?thesis
    by (simp add: output_path_lib)
qed

text \<open>
  C4. A byte of the input buffer at an offset that no occurrence of the old pattern covers
  is the byte of the output buffer at that offset. (By C2 the occurrences of the old pattern
  are exactly the regions that are replaced.) The example is the byte behind an occurrence.
\<close>

theorem bytes_outside_unchanged:
  assumes "i < length B" and "\<not> covered old_pattern B i"
  shows "modified_data B ! i = B ! i"
  unfolding modified_data_def
proof (rule replace_outside [OF old_pattern_nonempty length_padded_pattern assms(1)])
  fix j
  assume "occurs_at old_pattern B j"
  with assms(2) show "\<not> (j \<le> i \<and> i < j + length old_pattern)"
    by (auto simp: covered_iff)
qed

theorem bytes_outside_unchanged_witness:
  "(152::nat) < length (old_pattern @ [9]) \<and>
   \<not> covered old_pattern (old_pattern @ [9]) 152 \<and>
   modified_data (old_pattern @ [9]) ! 152 = 9"
proof -
  let ?B = "old_pattern @ [9]"
  have h1: "152 < length ?B" by (simp add: length_old_pattern)
  have h2: "\<not> covered old_pattern ?B 152"
  proof
    assume "covered old_pattern ?B 152"
    then obtain j where occ: "occurs_at old_pattern ?B j" and j: "152 < j + length old_pattern"
      unfolding covered_iff by blast
    from occ have "j \<le> 1" by (simp add: occurs_at_def length_old_pattern)
    with j have "j = 1" by (simp add: length_old_pattern)
    moreover have "occurs_at old_pattern ?B 0"
      using occurs_at_middle [of old_pattern "[]" "[9]"] by simp
    ultimately show False
      using no_overlap [OF border_free_old_pattern _ occ] by (simp add: length_old_pattern)
  qed
  from bytes_outside_unchanged [OF h1 h2] h1 h2 show ?thesis
    by (simp add: length_old_pattern nth_append)
qed

text \<open>
  C5, as the spec states it: only the first \<^verbatim>\<open>.so\<close> of the path is rewritten. On a path
  with two of them the script rewrites both.
\<close>

theorem output_path_first_only_counterexample:
  "output_path ''dir.so/lib.so'' = ''dir_fixed.so/lib_fixed.so'' \<and>
   output_path ''dir.so/lib.so'' \<noteq> ''dir_fixed.so/lib.so''"
  by code_simp

text \<open>
  C5, amended: every occurrence of \<^verbatim>\<open>.so\<close> in the path is rewritten to
  \<^verbatim>\<open>_fixed.so\<close>. Up to the first occurrence the path is kept, the occurrence becomes
  \<^verbatim>\<open>_fixed.so\<close>, and the rest of the path is rewritten in the same way.
\<close>

theorem output_path_every_occurrence:
  assumes "\<not> contains s ''.so''"
  shows "output_path (s @ ''.so'' @ rest) = s @ ''_fixed.so'' @ output_path rest"
  unfolding output_path_def
  by (rule replace_segment [OF so_nonempty border_free_so]) (use assms in \<open>simp add: contains_iff\<close>)

theorem output_path_every_occurrence_witness:
  "\<not> contains ''dir'' ''.so'' \<and>
   output_path (''dir'' @ ''.so'' @ ''/lib.so'') = ''dir'' @ ''_fixed.so'' @ ''/lib_fixed.so''"
proof -
  have h: "\<not> contains ''dir'' ''.so''" by code_simp
  have "output_path ''/lib.so'' = ''/lib_fixed.so''" by code_simp
  with output_path_every_occurrence [OF h, of "''/lib.so''"] h show ?thesis by simp
qed

text \<open>
  C6. For a path without \<^verbatim>\<open>.so\<close> the derived output path is the input path. When
  \<^verbatim>\<open>shorten_symbol_names\<close> reads the buffer \<open>B\<close> from such a path and its write succeeds,
  the write has gone to the input path: the function returns that path, the file there holds
  the patched buffer, and the file system is otherwise as before, without a sibling file.
\<close>

theorem no_so_overwrites_input:
  assumes "\<not> contains file_path ''.so''"
    and "fst (read_rb file_path w) = Inr B"
    and "fst (write_wb file_path (modified_data B) w) = Inr ()"
  shows "output_path file_path = file_path \<and>
         fst (shorten_symbol_names file_path w) = Inr file_path \<and>
         files (snd (shorten_symbol_names file_path w))
           = (files w)(file_path \<mapsto> File (modified_data B)) \<and>
         trace (snd (shorten_symbol_names file_path w))
           = trace w @ [OpenRead file_path, OpenWrite file_path]"
proof -
  have p: "output_path file_path = file_path" by (rule output_path_absent [OF assms(1)])
  have "fst (write_wb (output_path file_path) (modified_data B) w) = Inr ()"
    using assms(3) p by simp
  from shorten_symbol_names_run [OF assms(2) this] p show ?thesis by simp
qed

theorem no_so_overwrites_input_witness:
  "\<not> contains ''lib.bin'' ''.so'' \<and>
   fst (read_rb ''lib.bin'' (single_file ''lib.bin'' (old_pattern @ [9]))) = Inr (old_pattern @ [9]) \<and>
   fst (write_wb ''lib.bin'' (modified_data (old_pattern @ [9]))
          (single_file ''lib.bin'' (old_pattern @ [9]))) = Inr () \<and>
   output_path ''lib.bin'' = ''lib.bin'' \<and>
   fst (shorten_symbol_names ''lib.bin'' (single_file ''lib.bin'' (old_pattern @ [9])))
     = Inr ''lib.bin'' \<and>
   files (snd (shorten_symbol_names ''lib.bin'' (single_file ''lib.bin'' (old_pattern @ [9]))))
     = [''lib.bin'' \<mapsto> File (modified_data (old_pattern @ [9]))]"
proof -
  let ?w = "single_file ''lib.bin'' (old_pattern @ [9])"
  have h1: "\<not> contains ''lib.bin'' ''.so''" by code_simp
  have h2: "fst (read_rb ''lib.bin'' ?w) = Inr (old_pattern @ [9])" by (rule single_file_reads)
  have h3: "fst (write_wb ''lib.bin'' (modified_data (old_pattern @ [9])) ?w) = Inr ()"
    by (rule single_file_writes)
  from no_so_overwrites_input [OF h1 h2 h3] h1 h2 h3 show ?thesis by (simp add: single_file_def)
qed

text \<open>
  C7. A buffer \<open>B\<close> without the old pattern is its own patched buffer. When
  \<^verbatim>\<open>shorten_symbol_names\<close> reads such a buffer and the operating system takes the write
  of it to the derived path, the function returns the derived path without an exception,
  and the file at the derived path holds \<open>B\<close>: the absence of the pattern raises nothing.
\<close>

theorem absent_pattern_passes_through:
  assumes "\<not> contains B old_pattern"
    and "fst (read_rb file_path w) = Inr B"
    and "fst (write_wb (output_path file_path) B w) = Inr ()"
  shows "modified_data B = B \<and>
         fst (shorten_symbol_names file_path w) = Inr (output_path file_path) \<and>
         files (snd (shorten_symbol_names file_path w)) (output_path file_path) = Some (File B)"
proof -
  have m: "modified_data B = B" by (rule modified_data_absent [OF assms(1)])
  have "fst (write_wb (output_path file_path) (modified_data B) w) = Inr ()"
    using assms(3) m by simp
  from shorten_symbol_names_run [OF assms(2) this] m show ?thesis by simp
qed

theorem absent_pattern_passes_through_witness:
  "\<not> contains [1, 2, 3] old_pattern \<and>
   fst (read_rb ''lib.so'' (single_file ''lib.so'' [1, 2, 3])) = Inr [1, 2, 3] \<and>
   fst (write_wb (output_path ''lib.so'') [1, 2, 3] (single_file ''lib.so'' [1, 2, 3])) = Inr () \<and>
   fst (shorten_symbol_names ''lib.so'' (single_file ''lib.so'' [1, 2, 3])) = Inr ''lib_fixed.so'' \<and>
   files (snd (shorten_symbol_names ''lib.so'' (single_file ''lib.so'' [1, 2, 3]))) ''lib_fixed.so''
     = Some (File [1, 2, 3])"
proof -
  let ?w = "single_file ''lib.so'' [1, 2, 3]"
  have h1: "\<not> contains [1, 2, 3] old_pattern"
    by (simp add: contains_iff occurs_at_def length_old_pattern)
  have h2: "fst (read_rb ''lib.so'' ?w) = Inr [1, 2, 3]" by (rule single_file_reads)
  have h3: "fst (write_wb (output_path ''lib.so'') [1, 2, 3] ?w) = Inr ()"
    by (rule single_file_writes)
  from absent_pattern_passes_through [OF h1 h2 h3] h1 h2 h3 show ?thesis
    by (simp add: output_path_lib)
qed

text \<open>
  C8. With one positional argument that names nothing in the file system, the script
  prints the error line and exits with status 1; the files are unchanged, and the only
  file-system call is the existence check: nothing is opened for reading or writing.
\<close>

theorem missing_path_exits_1:
  assumes "files w file_path = None"
  shows "main [prog, file_path] w =
           (Inr 1, w\<lparr>stdout := stdout w @ [''Error: File '' @ file_path @ '' not found''],
                     trace := trace w @ [Exists file_path]\<rparr>)"
  using assms by (simp add: main_def exists_def print_def)

theorem missing_path_exits_1_witness:
  "files (single_file ''lib.so'' [1, 2, 3]) ''other.so'' = None \<and>
   main [''fix-symbols.py'', ''other.so''] (single_file ''lib.so'' [1, 2, 3]) =
     (Inr 1, \<lparr>files = [''lib.so'' \<mapsto> File [1, 2, 3]],
              stdout = [''Error: File other.so not found''],
              trace = [Exists ''other.so''],
              refuse_read = (\<lambda>p. None), refuse_write = (\<lambda>p. None),
              capacity = (\<lambda>p. None)\<rparr>)"
proof -
  have h: "files (single_file ''lib.so'' [1, 2, 3]) ''other.so'' = None"
    by (simp add: single_file_def)
  from missing_path_exits_1 [OF h, of "''fix-symbols.py''"] h show ?thesis
    by (simp add: single_file_def)
qed

text \<open>
  C9. When \<^verbatim>\<open>sys.argv\<close> does not have exactly two entries (no positional argument, or
  two and more), the script prints the usage line and exits with status 1; the files and
  the trace of file-system calls are unchanged, so no file is read.
\<close>

theorem wrong_argument_count_exits_1:
  assumes "length argv \<noteq> 2"
  shows "main argv w =
           (Inr 1, w\<lparr>stdout := stdout w @ [''Usage: python fix-symbols.py <path_to_so_file>'']\<rparr>)"
  using assms by (simp add: main_def print_def)

theorem wrong_argument_count_exits_1_witness:
  "length [''fix-symbols.py'', ''lib.so'', ''extra.so''] \<noteq> 2 \<and>
   main [''fix-symbols.py'', ''lib.so'', ''extra.so''] (single_file ''lib.so'' [1, 2, 3]) =
     (Inr 1, \<lparr>files = [''lib.so'' \<mapsto> File [1, 2, 3]],
              stdout = [''Usage: python fix-symbols.py <path_to_so_file>''],
              trace = [],
              refuse_read = (\<lambda>p. None), refuse_write = (\<lambda>p. None),
              capacity = (\<lambda>p. None)\<rparr>) \<and>
   main [''fix-symbols.py''] (single_file ''lib.so'' [1, 2, 3]) =
     (Inr 1, \<lparr>files = [''lib.so'' \<mapsto> File [1, 2, 3]],
              stdout = [''Usage: python fix-symbols.py <path_to_so_file>''],
              trace = [],
              refuse_read = (\<lambda>p. None), refuse_write = (\<lambda>p. None),
              capacity = (\<lambda>p. None)\<rparr>)"
proof -
  have h: "length [''fix-symbols.py'', ''lib.so'', ''extra.so''] \<noteq> 2" by simp
  have h': "length [''fix-symbols.py''] \<noteq> 2" by simp
  from wrong_argument_count_exits_1 [OF h] wrong_argument_count_exits_1 [OF h'] h
  show ?thesis by (simp add: single_file_def)
qed

text \<open>
  C10, as the spec states it: the old pattern spans 151 bytes. The literal of the source
  has 152 bytes.
\<close>

theorem old_pattern_span_counterexample: "length old_pattern \<noteq> 151"
  by (simp add: length_old_pattern)

text \<open>
  C10, amended: the old pattern spans 152 bytes, and the replacement written over each
  occurrence is the 14 bytes \<^verbatim>\<open>.bss._ZN_short\<close> followed by 138 null bytes, 152 bytes in all.
\<close>

theorem old_pattern_span:
  "length old_pattern = 152 \<and> padded_pattern = new_pattern @ replicate 138 0 \<and>
   length new_pattern = 14 \<and> length padded_pattern = 152"
  by (simp add: padded_pattern_def length_old_pattern length_new_pattern)

end
